theory Spec2Isabelle
  imports Complex_Main "HOL-Library.Char_ord" "HOL-Library.List_Lexorder"
begin

section \<open>Strings\<close>

text \<open>
  A Python \<^verbatim>\<open>str\<close> is modelled as a \<^typ>\<open>string\<close>: the list of its code points, each
  below 256 (Isabelle's \<^typ>\<open>char\<close>). The character classes below are the ones CPython's
  \<^verbatim>\<open>re\<close> and \<^verbatim>\<open>str\<close> use for these code points.
\<close>

definition ord :: "char \<Rightarrow> nat" where
  "ord c = of_char c"

text \<open>\<^verbatim>\<open>\s\<close> of a \<^verbatim>\<open>str\<close> pattern, and the characters \<^verbatim>\<open>str.strip()\<close> removes:
  \<^verbatim>\<open>str.isspace\<close>.\<close>

definition is_space :: "char \<Rightarrow> bool" where
  "is_space c =
     (let n = ord c in (9 \<le> n \<and> n \<le> 13) \<or> (28 \<le> n \<and> n \<le> 32) \<or> n = 133 \<or> n = 160)"

text \<open>\<^verbatim>\<open>\w\<close> of a \<^verbatim>\<open>str\<close> pattern: alphanumeric (alphabetic, decimal, digit or numeric)
  or the underscore.\<close>

definition is_word :: "char \<Rightarrow> bool" where
  "is_word c =
     (let n = ord c in
        (48 \<le> n \<and> n \<le> 57) \<or> (65 \<le> n \<and> n \<le> 90) \<or> n = 95 \<or> (97 \<le> n \<and> n \<le> 122)
        \<or> n = 170 \<or> n = 178 \<or> n = 179 \<or> n = 181 \<or> n = 185 \<or> n = 186
        \<or> (188 \<le> n \<and> n \<le> 190) \<or> (192 \<le> n \<and> n \<le> 214) \<or> (216 \<le> n \<and> n \<le> 246)
        \<or> (248 \<le> n \<and> n \<le> 255))"

text \<open>\<^verbatim>\<open>str.lower()\<close>, character by character.\<close>

definition lower_char :: "char \<Rightarrow> char" where
  "lower_char c =
     (let n = ord c in
        if (65 \<le> n \<and> n \<le> 90) \<or> (192 \<le> n \<and> n \<le> 214) \<or> (216 \<le> n \<and> n \<le> 222)
        then char_of (n + 32) else c)"

definition lower :: "string \<Rightarrow> string" where
  "lower s = map lower_char s"

text \<open>\<^verbatim>\<open>str.strip()\<close> with no argument.\<close>

definition strip :: "string \<Rightarrow> string" where
  "strip s = rev (dropWhile is_space (rev (dropWhile is_space s)))"

text \<open>\<^verbatim>\<open>x in s\<close> on strings: \<open>x\<close> occurs in \<open>s\<close> as a contiguous run.\<close>

fun str_in :: "string \<Rightarrow> string \<Rightarrow> bool" where
  "str_in x [] = (x = [])"
| "str_in x (c # cs) = (take (length x) (c # cs) = x \<or> str_in x cs)"

section \<open>The two patterns\<close>

text \<open>
  A compiled pattern is modelled by its matcher: given the text before the position and the
  text from the position on, the length of the match that starts there, if there is one.
  Neither pattern has the \<^verbatim>\<open>MULTILINE\<close> flag: \<^verbatim>\<open>^\<close> holds at the start of the string only,
  \<^verbatim>\<open>$\<close> at the end and before a final newline.
\<close>

type_synonym pattern = "string \<Rightarrow> string \<Rightarrow> nat option"

definition at_dollar :: "string \<Rightarrow> bool" where
  "at_dollar rest = (rest = [] \<or> rest = [CHR 0x0A])"

text \<open>\<^verbatim>\<open>(?=\s|$)\<close>\<close>

definition lookahead :: "string \<Rightarrow> bool" where
  "lookahead rest = ((case rest of [] \<Rightarrow> False | c # _ \<Rightarrow> is_space c) \<or> at_dollar rest)"

text \<open>\<^verbatim>\<open>\w+\<close> followed by the lookahead: greedy, then giving characters back one at a time
  down to a single one. \<open>n\<close> is the number of word characters taken.\<close>

fun word_plus :: "string \<Rightarrow> nat \<Rightarrow> nat option" where
  "word_plus rest 0 = None"
| "word_plus rest (Suc n) =
     (if lookahead (drop (Suc n) rest) then Some (Suc n) else word_plus rest n)"

definition word_run :: "string \<Rightarrow> nat" where
  "word_run rest = length (takeWhile is_word rest)"

text \<open>\<^verbatim>\<open>(?:(?<=^#)|(?<=\s#))\<close>: the character before is a hash that is itself the first
  character of the string, or follows a whitespace character.\<close>

definition behind_hash :: "string \<Rightarrow> bool" where
  "behind_hash pre =
     (pre = ''#'' \<or>
      (2 \<le> length pre \<and> is_space (pre ! (length pre - 2)) \<and> pre ! (length pre - 1) = CHR ''#''))"

text \<open>\<^verbatim>\<open>TAGS_RE = re.compile(r"(?:(?<=^#)|(?<=\s#))\w+(?=\s|$)")\<close>\<close>

definition TAGS_RE :: pattern where
  "TAGS_RE pre rest = (if behind_hash pre then word_plus rest (word_run rest) else None)"

text \<open>\<^verbatim>\<open>(?:(?<=^)|(?<=\s))\<close>\<close>

definition behind_boundary :: "string \<Rightarrow> bool" where
  "behind_boundary pre = (pre = [] \<or> (pre \<noteq> [] \<and> is_space (last pre)))"

text \<open>\<^verbatim>\<open>TAGS_WITH_HASH_RE = re.compile(r"(?:(?<=^)|(?<=\s))#\w+(?=\s|$)")\<close>\<close>

definition TAGS_WITH_HASH_RE :: pattern where
  "TAGS_WITH_HASH_RE pre rest =
     (if behind_boundary pre then
        (case rest of
           [] \<Rightarrow> None
         | c # cs \<Rightarrow> if c = CHR ''#'' then map_option Suc (word_plus cs (word_run cs)) else None)
      else None)"

section \<open>Scanning a string for a pattern\<close>

text \<open>
  \<^verbatim>\<open>re.sub\<close> walks the string from left to right. Where the pattern matches, the match is
  handed to the replacement function and the walk goes on behind it; elsewhere the character
  is copied. Both patterns match at least one character, so the empty match (and what
  \<^verbatim>\<open>re.sub\<close> does after one) does not arise: a matcher's \<open>Some 0\<close> is read as no match.
\<close>

datatype seg = Lit char | Match string

fun re_scan :: "pattern \<Rightarrow> string \<Rightarrow> string \<Rightarrow> seg list" where
  "re_scan p pre [] = []"
| "re_scan p pre (c # cs) =
     (case p pre (c # cs) of
        None \<Rightarrow> Lit c # re_scan p (pre @ [c]) cs
      | Some 0 \<Rightarrow> Lit c # re_scan p (pre @ [c]) cs
      | Some (Suc k) \<Rightarrow> Match (c # take k cs) # re_scan p (pre @ c # take k cs) (drop k cs))"

fun seg_text :: "(string \<Rightarrow> string) \<Rightarrow> seg \<Rightarrow> string" where
  "seg_text repl (Lit c) = [c]"
| "seg_text repl (Match m) = repl m"

definition re_sub :: "pattern \<Rightarrow> (string \<Rightarrow> string) \<Rightarrow> string \<Rightarrow> string" where
  "re_sub p repl s = concat (map (seg_text repl) (re_scan p [] s))"

fun seg_match :: "seg \<Rightarrow> string list" where
  "seg_match (Lit c) = []"
| "seg_match (Match m) = [m]"

text \<open>
  Modelled from the spec: \<^verbatim>\<open>helpers.re_extract\<close> is imported by the source but is not part
  of it. Section 4.1 gives its result for the tag pattern: the content with all matched tag
  tokens removed, paired with the matched tokens.
\<close>

definition re_extract :: "pattern \<Rightarrow> string \<Rightarrow> string \<times> string list" where
  "re_extract p s = (re_sub p (\<lambda>m. []) s, concat (map seg_match (re_scan p [] s)))"

section \<open>Errors\<close>

datatype py_error =
    IndexError
  | AttributeError
  | InvalidTitleError
  | FileNotFoundError
  | IsADirectoryError
  | QueryError

section \<open>Tag extraction\<close>

text \<open>The body of the \<^verbatim>\<open>try\<close>: the list comprehension. It raises nothing.\<close>

definition lower_all :: "string list \<Rightarrow> py_error + string list" where
  "lower_all tags = Inr (map lower tags)"

text \<open>\<^verbatim>\<open>Flatnotes.extract_tags\<close>; the handler catches \<^verbatim>\<open>IndexError\<close> only.\<close>

definition extract_tags :: "string \<Rightarrow> py_error + string \<times> string set" where
  "extract_tags content =
     (case re_extract TAGS_RE content of
        (content_ex_tags, tags) \<Rightarrow>
          (case lower_all tags of
             Inr tags' \<Rightarrow> Inr (content_ex_tags, set tags')
           | Inl IndexError \<Rightarrow> Inr (content, {})
           | Inl e \<Rightarrow> Inl e))"

section \<open>Query preprocessing\<close>

text \<open>\<^verbatim>\<open>Flatnotes.pre_process_search_term\<close>; the replacement is
  \<^verbatim>\<open>lambda tag: "tags:" + tag.group(0)[1:]\<close>.\<close>

definition pre_process_search_term :: "string \<Rightarrow> string" where
  "pre_process_search_term term =
     re_sub TAGS_WITH_HASH_RE (\<lambda>tag. ''tags:'' @ drop 1 tag) (strip term)"

section \<open>Paths and the note store\<close>

text \<open>\<^verbatim>\<open>MARKDOWN_EXT = ".md"\<close>\<close>

definition MARKDOWN_EXT :: string where
  "MARKDOWN_EXT = ''.md''"

text \<open>\<^verbatim>\<open>os.path.join\<close> of two parts (POSIX).\<close>

definition path_join :: "string \<Rightarrow> string \<Rightarrow> string" where
  "path_join a b =
     (if b \<noteq> [] \<and> hd b = CHR ''/'' then b
      else if a = [] \<or> last a = CHR ''/'' then a @ b
      else a @ ''/'' @ b)"

text \<open>\<^verbatim>\<open>os.path.split(p)[1]\<close>: what follows the last slash.\<close>

definition basename :: "string \<Rightarrow> string" where
  "basename p = rev (takeWhile (\<lambda>c. c \<noteq> CHR ''/'') (rev p))"

text \<open>
  Modelled from the spec: \<^verbatim>\<open>helpers.strip_ext\<close> is imported by the source but is not part
  of it. The specification only says that a note's key is derived from its file name; the
  two places that call it hand it a file name and put \<^verbatim>\<open>MARKDOWN_EXT\<close> back on the result,
  which is what \<^verbatim>\<open>os.path.splitext(filename)[0]\<close> supports: the name up to the last dot of
  its last component, unless that component has nothing but dots before it.
\<close>

definition strip_ext :: "string \<Rightarrow> string" where
  "strip_ext p =
     (let base = basename p;
          stem = rev (drop 1 (dropWhile (\<lambda>c. c \<noteq> CHR ''.'') (rev base)))
      in if CHR ''.'' \<in> set base \<and> list_ex (\<lambda>c. c \<noteq> CHR ''.'') stem
         then take (length p - length base) p @ stem
         else p)"

text \<open>
  The part of the file system below the note root. Every file and directory there is an
  entry: its path as the list of names from the root down, the modification time, and what
  it is. The order of the list is the order in which a directory scan meets the entries.
  A modification time is kept as the \<^verbatim>\<open>datetime\<close> that
  \<^verbatim>\<open>datetime.fromtimestamp(os.path.getmtime(path))\<close> gives, counted in microseconds; the
  code only compares these values for equality.
\<close>

type_synonym timestamp = int

datatype node = RegularFile string | Directory

record entry =
  e_path :: "string list"
  e_mtime :: timestamp
  e_node :: node

record store =
  root :: string
  entries :: "entry list"

definition full_path :: "string \<Rightarrow> entry \<Rightarrow> string" where
  "full_path dir e = foldl path_join dir (e_path e)"

definition lookup :: "store \<Rightarrow> string \<Rightarrow> entry option" where
  "lookup st p = find (\<lambda>e. full_path (root st) e = p) (entries st)"

text \<open>\<^verbatim>\<open>os.path.exists\<close>\<close>

definition path_exists :: "store \<Rightarrow> string \<Rightarrow> bool" where
  "path_exists st p = (lookup st p \<noteq> None)"

text \<open>\<^verbatim>\<open>os.path.getmtime\<close>, already as a \<^verbatim>\<open>datetime\<close>.\<close>

definition getmtime :: "store \<Rightarrow> string \<Rightarrow> py_error + timestamp" where
  "getmtime st p = (case lookup st p of None \<Rightarrow> Inl FileNotFoundError | Some e \<Rightarrow> Inr (e_mtime e))"

text \<open>\<^verbatim>\<open>open(p, "r", encoding="utf-8")\<close> and \<^verbatim>\<open>read()\<close>\<close>

definition read_file :: "store \<Rightarrow> string \<Rightarrow> py_error + string" where
  "read_file st p =
     (case lookup st p of
        None \<Rightarrow> Inl FileNotFoundError
      | Some e \<Rightarrow> (case e_node e of RegularFile text \<Rightarrow> Inr text | Directory \<Rightarrow> Inl IsADirectoryError))"

text \<open>
  \<^verbatim>\<open>glob.glob(os.path.join(dir, "**/*" + MARKDOWN_EXT), recursive=True)\<close>: the entries whose
  name ends in \<^verbatim>\<open>.md\<close>, in the root or in any directory below it. A name that starts with a
  dot is hidden from \<^verbatim>\<open>*\<close> and from \<^verbatim>\<open>**\<close>, be it the file's or a directory's on the way.
\<close>

definition hidden :: "string \<Rightarrow> bool" where
  "hidden name = (name \<noteq> [] \<and> hd name = CHR ''.'')"

definition ends_with :: "string \<Rightarrow> string \<Rightarrow> bool" where
  "ends_with s suffix = (length suffix \<le> length s \<and> drop (length s - length suffix) s = suffix)"

definition glob_match :: "entry \<Rightarrow> bool" where
  "glob_match e =
     (e_path e \<noteq> [] \<and> list_all (\<lambda>name. \<not> hidden name) (e_path e)
      \<and> ends_with (last (e_path e)) MARKDOWN_EXT)"

definition glob_md :: "store \<Rightarrow> string list" where
  "glob_md st = map (full_path (root st)) (filter glob_match (entries st))"

section \<open>Notes\<close>

text \<open>
  An object of class \<^verbatim>\<open>Note\<close>; the note store it refers to is passed to each property.
\<close>

record Note =
  n_title :: string
  n_subdirs :: string

text \<open>\<^verbatim>\<open>Note._is_valid_title\<close>: the invalid characters are the nine of
  \<^verbatim>\<open><>:"/\|?*\<close> (0x22 is the double quote, 0x5C the backslash).\<close>

definition invalid_chars :: string where
  "invalid_chars =
     [CHR ''<'', CHR ''>'', CHR '':'', CHR 0x22, CHR ''/'', CHR 0x5C, CHR ''|'', CHR ''?'', CHR ''*'']"

definition is_valid_title :: "string \<Rightarrow> bool" where
  "is_valid_title title = (\<not> list_ex (\<lambda>invalid_char. invalid_char \<in> set title) invalid_chars)"

text \<open>\<^verbatim>\<open>Note.__init__\<close> with \<^verbatim>\<open>new=False\<close>, as every call in the source has it.\<close>

definition Note_init :: "string \<Rightarrow> py_error + Note" where
  "Note_init title =
     (let t = strip title in
      if \<not> is_valid_title t then Inl InvalidTitleError
      else Inr \<lparr>n_title = t, n_subdirs = []\<rparr>)"

definition set_subdirs :: "Note \<Rightarrow> string \<Rightarrow> Note" where
  "set_subdirs n subdirs = n\<lparr>n_subdirs := subdirs\<rparr>"

text \<open>\<^verbatim>\<open>Note.filename\<close>\<close>

definition Note_filename :: "Note \<Rightarrow> string" where
  "Note_filename n = n_title n @ MARKDOWN_EXT"

text \<open>\<^verbatim>\<open>Note.filepath\<close>: the loop over \<^verbatim>\<open>dirlist\<close> keeps the last path that has the file
  name somewhere in it.\<close>

definition Note_filepath :: "store \<Rightarrow> Note \<Rightarrow> string" where
  "Note_filepath st n =
     foldl (\<lambda>filepath file. if str_in (Note_filename n) file then file else filepath) []
       (glob_md st)"

text \<open>\<^verbatim>\<open>Note.last_modified\<close>\<close>

definition Note_last_modified :: "store \<Rightarrow> Note \<Rightarrow> py_error + timestamp" where
  "Note_last_modified st n = getmtime st (Note_filepath st n)"

text \<open>\<^verbatim>\<open>Note.content\<close> (the getter)\<close>

definition Note_content :: "store \<Rightarrow> Note \<Rightarrow> py_error + string" where
  "Note_content st n = read_file st (Note_filepath st n)"

section \<open>The index\<close>

text \<open>
  A document of the index, with the fields of \<^verbatim>\<open>IndexSchema\<close>. The \<^verbatim>\<open>tags\<close> field is a
  lower-casing keyword field: it indexes the words of the string it is given. The code gives
  it \<^verbatim>\<open>" ".join(tag_set)\<close>, whose words are the members of \<^verbatim>\<open>tag_set\<close> (a tag has no
  whitespace in it), so the model keeps that set.
\<close>

record idx_doc =
  d_filename :: string
  d_last_modified :: timestamp
  d_title :: string
  d_content :: string
  d_tags :: "string set"

text \<open>
  The index library (whoosh) is not part of the source. Its writer is modelled as the
  library documents it. The committed index is a list of documents. A writer collects the
  file names whose committed documents it has marked as deleted, and the documents it has
  added. \<^verbatim>\<open>delete_by_term\<close> searches the committed documents only.
  \<^verbatim>\<open>update_document\<close> deletes the committed documents that have the same value in a
  unique field (here \<^verbatim>\<open>filename\<close>) and then adds the new document; it ``will only replace
  a committed document'', not one added through the same writer. \<^verbatim>\<open>commit\<close> makes the
  committed documents that were not deleted, followed by the added ones, the new index;
  with the merge type \<^verbatim>\<open>CLEAR\<close> all committed documents are dropped.
\<close>

record writer =
  w_clear :: bool
  w_deleted :: "string list"
  w_added :: "idx_doc list"

definition index_writer :: writer where
  "index_writer = \<lparr>w_clear = False, w_deleted = [], w_added = []\<rparr>"

definition delete_by_term :: "writer \<Rightarrow> string \<Rightarrow> writer" where
  "delete_by_term wr idx_filename = wr\<lparr>w_deleted := idx_filename # w_deleted wr\<rparr>"

definition add_document :: "writer \<Rightarrow> idx_doc \<Rightarrow> writer" where
  "add_document wr d = wr\<lparr>w_added := w_added wr @ [d]\<rparr>"

definition update_document :: "writer \<Rightarrow> idx_doc \<Rightarrow> writer" where
  "update_document wr d = add_document (delete_by_term wr (d_filename d)) d"

definition commit :: "idx_doc list \<Rightarrow> writer \<Rightarrow> idx_doc list" where
  "commit index wr =
     (if w_clear wr then [] else filter (\<lambda>d. d_filename d \<notin> set (w_deleted wr)) index)
     @ w_added wr"

section \<open>Synchronizing the index\<close>

text \<open>\<^verbatim>\<open>Flatnotes._add_note_to_index\<close>. The content is read first, then the modification
  time; either can raise.\<close>

definition add_note_to_index :: "store \<Rightarrow> writer \<Rightarrow> Note \<Rightarrow> py_error + writer" where
  "add_note_to_index st wr n =
     (case Note_content st n of
        Inl e \<Rightarrow> Inl e
      | Inr text \<Rightarrow>
          (case extract_tags text of
             Inl e \<Rightarrow> Inl e
           | Inr (content_ex_tags, tag_set) \<Rightarrow>
               (case Note_last_modified st n of
                  Inl e \<Rightarrow> Inl e
                | Inr mtime \<Rightarrow>
                    Inr (update_document wr
                          \<lparr>d_filename = Note_filename n,
                           d_last_modified = mtime,
                           d_title = n_title n,
                           d_content = content_ex_tags,
                           d_tags = tag_set\<rparr>))))"

text \<open>
  \<^verbatim>\<open>os.path.relpath(os.path.dirname(filepath), self.dir)\<close> for a path that the glob returned
  for this root: the directories between the root and the file, or a single dot when there
  are none.
\<close>

definition relpath_dir :: "string \<Rightarrow> string \<Rightarrow> string" where
  "relpath_dir filepath dir =
     (let rel = drop (length (path_join dir [])) filepath;
          dirs = butlast (take (length rel - length (basename rel)) rel)
      in if dirs = [] then ''.'' else dirs)"

text \<open>\<^verbatim>\<open>Flatnotes._get_notes\<close>: the body of the loop, and the loop.\<close>

definition get_note :: "store \<Rightarrow> string \<Rightarrow> py_error + Note" where
  "get_note st filepath =
     (case Note_init (strip_ext (basename filepath)) of
        Inl e \<Rightarrow> Inl e
      | Inr n \<Rightarrow> Inr (set_subdirs n (relpath_dir filepath (root st))))"

fun get_notes_loop :: "store \<Rightarrow> string list \<Rightarrow> py_error + Note list" where
  "get_notes_loop st [] = Inr []"
| "get_notes_loop st (filepath # rest) =
     (case get_note st filepath of
        Inl e \<Rightarrow> Inl e
      | Inr n \<Rightarrow> (case get_notes_loop st rest of Inl e \<Rightarrow> Inl e | Inr notes \<Rightarrow> Inr (n # notes)))"

definition get_notes :: "store \<Rightarrow> py_error + Note list" where
  "get_notes st = get_notes_loop st (glob_md st)"

text \<open>
  \<^verbatim>\<open>Flatnotes.update_index\<close>, first loop: one stored document of the index. Only
  \<^verbatim>\<open>filename\<close> and \<^verbatim>\<open>last_modified\<close> are stored fields. The state of the loop is the
  writer and the set \<^verbatim>\<open>indexed\<close>.
\<close>

definition sync_entry ::
  "store \<Rightarrow> idx_doc \<Rightarrow> writer \<times> string set \<Rightarrow> py_error + writer \<times> string set" where
  "sync_entry st idx_note acc =
     (case acc of (wr, indexed) \<Rightarrow>
        (let idx_filename = d_filename idx_note;
             idx_filepath = path_join (root st) idx_filename
         in if \<not> path_exists st idx_filepath then
              Inr (delete_by_term wr idx_filename, indexed)
            else
              (case getmtime st idx_filepath of
                 Inl e \<Rightarrow> Inl e
               | Inr mtime \<Rightarrow>
                   if mtime \<noteq> d_last_modified idx_note then
                     (case Note_init (strip_ext idx_filename) of
                        Inl e \<Rightarrow> Inl e
                      | Inr n \<Rightarrow>
                          (case add_note_to_index st wr n of
                             Inl e \<Rightarrow> Inl e
                           | Inr wr' \<Rightarrow> Inr (wr', insert idx_filename indexed)))
                   else Inr (wr, insert idx_filename indexed))))"

fun sync_entries ::
  "store \<Rightarrow> idx_doc list \<Rightarrow> writer \<times> string set \<Rightarrow> py_error + writer \<times> string set" where
  "sync_entries st [] acc = Inr acc"
| "sync_entries st (idx_note # rest) acc =
     (case sync_entry st idx_note acc of
        Inl e \<Rightarrow> Inl e
      | Inr acc' \<Rightarrow> sync_entries st rest acc')"

text \<open>Second loop: the notes that the first loop has not put into \<^verbatim>\<open>indexed\<close>.\<close>

fun add_new :: "store \<Rightarrow> string set \<Rightarrow> Note list \<Rightarrow> writer \<Rightarrow> py_error + writer" where
  "add_new st indexed [] wr = Inr wr"
| "add_new st indexed (n # rest) wr =
     (if Note_filename n \<notin> indexed then
        (case add_note_to_index st wr n of
           Inl e \<Rightarrow> Inl e
         | Inr wr' \<Rightarrow> add_new st indexed rest wr')
      else add_new st indexed rest wr)"

text \<open>
  \<^verbatim>\<open>Flatnotes.update_index\<close>. The result is the committed index after the call; an
  exception leaves the writer uncommitted.
\<close>

definition update_index :: "store \<Rightarrow> idx_doc list \<Rightarrow> bool \<Rightarrow> py_error + idx_doc list" where
  "update_index st index clean =
     (case sync_entries st index (index_writer\<lparr>w_clear := clean\<rparr>, {}) of
        Inl e \<Rightarrow> Inl e
      | Inr (wr, indexed) \<Rightarrow>
          (case get_notes st of
             Inl e \<Rightarrow> Inl e
           | Inr notes \<Rightarrow>
               (case add_new st indexed notes wr of
                  Inl e \<Rightarrow> Inl e
                | Inr wr' \<Rightarrow> Inr (commit index wr'))))"

section \<open>Listing the tags\<close>

text \<open>
  The names an object of class \<^verbatim>\<open>Flatnotes\<close> has: the two that \<^verbatim>\<open>__init__\<close> sets and
  those of the class body. \<^verbatim>\<open>Flatnotes\<close> derives from \<^verbatim>\<open>object\<close> and defines no
  \<^verbatim>\<open>__getattr__\<close>; the names of \<^verbatim>\<open>object\<close> all start and end with two underscores.
\<close>

definition Flatnotes_attributes :: "string list" where
  "Flatnotes_attributes =
     [''dir'', ''index'', ''TAGS_RE'', ''TAGS_WITH_HASH_RE'', ''__init__'', ''index_dir'',
      ''_load_index'', ''extract_tags'', ''_add_note_to_index'', ''_get_notes'',
      ''update_index'', ''get_tags'', ''pre_process_search_term'', ''search'']"

text \<open>\<^verbatim>\<open>reader.field_terms("tags")\<close>: the terms of the \<^verbatim>\<open>tags\<close> field.\<close>

definition field_terms_tags :: "idx_doc list \<Rightarrow> string set" where
  "field_terms_tags index = \<Union> (set (map d_tags index))"

text \<open>
  \<^verbatim>\<open>Flatnotes.get_tags\<close>. Its first statement is \<^verbatim>\<open>self.update_index_debounced()\<close>, which
  looks the name up on the object before anything is called. When the lookup fails,
  \<^verbatim>\<open>AttributeError\<close> is raised and the rest of the body does not run.
\<close>

definition get_tags :: "store \<Rightarrow> idx_doc list \<Rightarrow> py_error + string set" where
  "get_tags st index =
     (if ''update_index_debounced'' \<notin> set Flatnotes_attributes then Inl AttributeError
      else Inr (field_terms_tags index))"

section \<open>Searching\<close>

text \<open>
  The search side of the index library is not part of the source either. What the source
  relies on is modelled as follows. The documents that a query matches, in the order of
  their document numbers, each with its relevance score and its matched terms, come from the
  library's query parser and scoring; the model takes them from a function it is given, like
  the highlighter. \<^verbatim>\<open>Every()\<close> is the query for the term \<^verbatim>\<open>*\<close>.
\<close>

datatype query = Every | Parsed string

record match =
  m_doc :: idx_doc
  m_score :: real
  m_terms :: "(string \<times> string) list"

text \<open>
  \<^verbatim>\<open>hit.score\<close> is a float when the results are ordered by relevance. When they are ordered
  by a field it is the value of that field in the field's sortable column: the text of
  \<^verbatim>\<open>title\<close>, the integer that stands for the date of \<^verbatim>\<open>last_modified\<close>.
\<close>

datatype py_value = PyFloat real | PyStr string | PyInt int

record hit =
  h_match :: match
  h_score :: py_value

datatype fragmenter = WholeFragmenter | ContextFragmenter

record engine =
  parse_and_match :: "idx_doc list \<Rightarrow> query \<Rightarrow> py_error + match list"
  highlights :: "fragmenter \<Rightarrow> hit \<Rightarrow> string \<Rightarrow> string \<Rightarrow> string"

text \<open>
  \<^verbatim>\<open>searcher.search(query, sortedby=..., reverse=..., limit=..., terms=True)\<close>, given the
  matches of the query. With \<^verbatim>\<open>sortedby=None\<close> the matches are ordered by score, highest
  first, and by document number where scores are equal; with a field they are ordered by the
  field's value, lowest first. \<^verbatim>\<open>reverse=True\<close> turns the order round, which for the score
  means lowest first (the source's comment: ``when sorting by 'score', reverse = True means
  asc''). The limit caps the sequence.
\<close>

definition order_matches :: "string option \<Rightarrow> match list \<Rightarrow> match list" where
  "order_matches sortedby ms =
     (case sortedby of
        None \<Rightarrow> sort_key (\<lambda>m. - m_score m) ms
      | Some field \<Rightarrow>
          if field = ''title'' then sort_key (\<lambda>m. d_title (m_doc m)) ms
          else sort_key (\<lambda>m. d_last_modified (m_doc m)) ms)"

definition to_hit :: "string option \<Rightarrow> match \<Rightarrow> hit" where
  "to_hit sortedby m =
     \<lparr>h_match = m,
      h_score =
        (case sortedby of
           None \<Rightarrow> PyFloat (m_score m)
         | Some field \<Rightarrow>
             if field = ''title'' then PyStr (d_title (m_doc m))
             else PyInt (d_last_modified (m_doc m)))\<rparr>"

definition searcher_search ::
  "match list \<Rightarrow> string option \<Rightarrow> bool \<Rightarrow> nat option \<Rightarrow> hit list" where
  "searcher_search ms sortedby reverse limit =
     (let ordered = order_matches sortedby ms;
          directed = (if reverse then rev ordered else ordered);
          capped = (case limit of None \<Rightarrow> directed | Some n \<Rightarrow> take n directed)
      in map (to_hit sortedby) capped)"

text \<open>An object of class \<^verbatim>\<open>SearchResult\<close>, which derives from \<^verbatim>\<open>Note\<close>.\<close>

record SearchResult = Note +
  sr_matched_fields :: "string set"
  sr_score :: "real option"
  sr_title_highlights :: "string option"
  sr_content_highlights :: "string option"
  sr_tag_matches :: "string list option"

text \<open>\<^verbatim>\<open>SearchResult._get_matched_fields\<close>\<close>

definition get_matched_fields :: "(string \<times> string) list \<Rightarrow> string set" where
  "get_matched_fields matched_terms = set (map fst matched_terms)"

text \<open>\<^verbatim>\<open>hit.score if type(hit.score) is float else None\<close>\<close>

definition score_of_hit :: "hit \<Rightarrow> real option" where
  "score_of_hit h = (case h_score h of PyFloat x \<Rightarrow> Some x | PyStr s \<Rightarrow> None | PyInt i \<Rightarrow> None)"

text \<open>\<^verbatim>\<open>SearchResult.__init__\<close>. \<^verbatim>\<open>hit["filename"]\<close> is the stored file name of the hit's
  document.\<close>

definition SearchResult_init :: "engine \<Rightarrow> store \<Rightarrow> hit \<Rightarrow> py_error + SearchResult" where
  "SearchResult_init eng st h =
     (case Note_init (strip_ext (d_filename (m_doc (h_match h)))) of
        Inl e \<Rightarrow> Inl e
      | Inr n \<Rightarrow>
          (let matched_fields = get_matched_fields (m_terms (h_match h));
               score = score_of_hit h;
               title_highlights =
                 (if ''title'' \<in> matched_fields
                  then Some (highlights eng WholeFragmenter h ''title'' (n_title n))
                  else None);
               tag_matches =
                 (if ''tags'' \<in> matched_fields
                  then Some (map snd (filter (\<lambda>field. fst field = ''tags'') (m_terms (h_match h))))
                  else None)
           in if ''content'' \<in> matched_fields then
                (case Note_content st n of
                   Inl e \<Rightarrow> Inl e
                 | Inr text \<Rightarrow>
                     (case extract_tags text of
                        Inl e \<Rightarrow> Inl e
                      | Inr (content_ex_tags, _) \<Rightarrow>
                          Inr \<lparr>n_title = n_title n, n_subdirs = n_subdirs n,
                               sr_matched_fields = matched_fields, sr_score = score,
                               sr_title_highlights = title_highlights,
                               sr_content_highlights =
                                 Some (highlights eng ContextFragmenter h ''content'' content_ex_tags),
                               sr_tag_matches = tag_matches\<rparr>))
              else
                Inr \<lparr>n_title = n_title n, n_subdirs = n_subdirs n,
                     sr_matched_fields = matched_fields, sr_score = score,
                     sr_title_highlights = title_highlights,
                     sr_content_highlights = None,
                     sr_tag_matches = tag_matches\<rparr>))"

text \<open>\<^verbatim>\<open>tuple(SearchResult(self, hit) for hit in results)\<close>\<close>

fun search_results :: "engine \<Rightarrow> store \<Rightarrow> hit list \<Rightarrow> py_error + SearchResult list" where
  "search_results eng st [] = Inr []"
| "search_results eng st (h # hs) =
     (case SearchResult_init eng st h of
        Inl e \<Rightarrow> Inl e
      | Inr r \<Rightarrow> (case search_results eng st hs of Inl e \<Rightarrow> Inl e | Inr rs \<Rightarrow> Inr (r # rs)))"

text \<open>\<^verbatim>\<open>Flatnotes.search\<close>: ``Determine Sort By'' and ``Determine Sort Direction''.
  The parameter \<^verbatim>\<open>sort\<close> is \<open>sort_arg\<close> here.\<close>

definition sort_by :: "string \<Rightarrow> string option" where
  "sort_by sort_arg =
     (if sort_arg \<in> set [''title'', ''last_modified''] then Some sort_arg else None)"

definition sort_direction :: "string \<Rightarrow> string \<Rightarrow> bool" where
  "sort_direction sort_arg order =
     (let reverse = (order = ''desc'')
      in if sort_by sort_arg = None then \<not> reverse else reverse)"

text \<open>\<^verbatim>\<open>Flatnotes.search\<close>. The result is the index after the synchronization and the tuple
  of results.\<close>

definition search ::
  "engine \<Rightarrow> store \<Rightarrow> idx_doc list \<Rightarrow> string \<Rightarrow> string \<Rightarrow> string \<Rightarrow> nat option
     \<Rightarrow> py_error + idx_doc list \<times> SearchResult list" where
  "search eng st index term sort_arg order limit =
     (case update_index st index False of
        Inl e \<Rightarrow> Inl e
      | Inr index' \<Rightarrow>
          (let term' = pre_process_search_term term;
               query = (if term' = ''*'' then Every else Parsed term')
           in case parse_and_match eng index' query of
                Inl e \<Rightarrow> Inl e
              | Inr ms \<Rightarrow>
                  (case search_results eng st
                          (searcher_search ms (sort_by sort_arg) (sort_direction sort_arg order) limit) of
                     Inl e \<Rightarrow> Inl e
                   | Inr rs \<Rightarrow> Inr (index', rs))))"

section \<open>Examples\<close>

text \<open>A note root with \<^verbatim>\<open>a.md\<close> and, in the directory \<^verbatim>\<open>x\<close>, \<^verbatim>\<open>data.md\<close>.\<close>

definition store_a_data :: store where
  "store_a_data =
     \<lparr>root = ''/notes'',
      entries =
        [\<lparr>e_path = [''a.md''], e_mtime = 5, e_node = RegularFile ''alpha #One''\<rparr>,
         \<lparr>e_path = [''x''], e_mtime = 1, e_node = Directory\<rparr>,
         \<lparr>e_path = [''x'', ''data.md''], e_mtime = 7, e_node = RegularFile ''delta #two''\<rparr>]\<rparr>"


text \<open>A note root with \<^verbatim>\<open>a.md\<close> and, in the directory \<^verbatim>\<open>x\<close>, another \<^verbatim>\<open>a.md\<close>.\<close>

definition store_a_a :: store where
  "store_a_a =
     \<lparr>root = ''/notes'',
      entries =
        [\<lparr>e_path = [''a.md''], e_mtime = 5, e_node = RegularFile ''alpha #One''\<rparr>,
         \<lparr>e_path = [''x''], e_mtime = 1, e_node = Directory\<rparr>,
         \<lparr>e_path = [''x'', ''a.md''], e_mtime = 9, e_node = RegularFile ''other''\<rparr>]\<rparr>"

text \<open>A note root with \<^verbatim>\<open>a.md\<close> and \<^verbatim>\<open>b.md\<close>.\<close>

definition store_a_b :: store where
  "store_a_b =
     \<lparr>root = ''/notes'',
      entries =
        [\<lparr>e_path = [''a.md''], e_mtime = 5, e_node = RegularFile ''alpha #One''\<rparr>,
         \<lparr>e_path = [''b.md''], e_mtime = 6, e_node = RegularFile ''beta #one #Two''\<rparr>]\<rparr>"

text \<open>
  A search engine for the examples: every query matches every document, with the length of
  the document's content as its score and its title as the one matched term; the highlight
  of a text is the text.
\<close>

definition engine_all :: engine where
  "engine_all =
     \<lparr>parse_and_match =
        (\<lambda>index query.
           Inr (map (\<lambda>d. \<lparr>m_doc = d, m_score = real (length (d_content d)),
                           m_terms = [(''title'', d_title d)]\<rparr>) index)),
      highlights = (\<lambda>fragmenter h field text. text)\<rparr>"

section \<open>The note files of a store\<close>



section \<open>An index that fits the note store\<close>

text \<open>The two tests of the first loop of \<^verbatim>\<open>update_index\<close>, for a document of the index.\<close>

definition in_root :: "store \<Rightarrow> idx_doc \<Rightarrow> bool" where
  "in_root st d = path_exists st (path_join (root st) (d_filename d))"

definition stale :: "store \<Rightarrow> idx_doc \<Rightarrow> bool" where
  "stale st d = (getmtime st (path_join (root st) (d_filename d)) \<noteq> Inr (d_last_modified d))"

text \<open>A file name is a key when the note made from its title has that file name again.\<close>

definition is_key :: "string \<Rightarrow> bool" where
  "is_key k = (case Note_init (strip_ext k) of Inl e \<Rightarrow> False | Inr n \<Rightarrow> Note_filename n = k)"

text \<open>
  The index fits the notes of the store: it has at most one entry per file name, and every
  entry whose file exists in the note root has a file name that is a key, and the key of one
  of the notes.
\<close>

definition index_fits :: "store \<Rightarrow> Note list \<Rightarrow> idx_doc list \<Rightarrow> bool" where
  "index_fits st notes index =
     (distinct (map d_filename index)
      \<and> list_all (\<lambda>d. \<not> in_root st d
                       \<or> (is_key (d_filename d) \<and> d_filename d \<in> set (map Note_filename notes)))
           index)"

section \<open>Query preprocessing, in the words of the specification\<close>

text \<open>
  The boundary rule of the query pattern: a hash that starts the string or follows
  whitespace, then word characters, then whitespace or the end of the string. A piece of text
  between two whitespace characters (or the ends of the string) is a token, and the rule
  picks the tokens that are a hash followed by one or more word characters and nothing else.
  \<open>rewrite_tokens\<close> rewrites those into \<^verbatim>\<open>tags:<name>\<close> and copies everything else.
\<close>

definition is_hashtag_token :: "string \<Rightarrow> bool" where
  "is_hashtag_token tok =
     (case tok of [] \<Rightarrow> False | c # name \<Rightarrow> c = CHR ''#'' \<and> name \<noteq> [] \<and> list_all is_word name)"

definition rewrite_token :: "string \<Rightarrow> string" where
  "rewrite_token tok = (if is_hashtag_token tok then ''tags:'' @ drop 1 tok else tok)"

function rewrite_tokens :: "string \<Rightarrow> string" where
  "rewrite_tokens [] = []"
| "rewrite_tokens (c # cs) =
     (if is_space c then c # rewrite_tokens cs
      else rewrite_token (c # takeWhile (\<lambda>x. \<not> is_space x) cs)
           @ rewrite_tokens (dropWhile (\<lambda>x. \<not> is_space x) cs))"
  by pat_completeness auto
termination
  by (relation "measure length") (auto simp: less_Suc_eq_le length_dropWhile_le)


section \<open>Properties of the patterns\<close>

lemma word_not_space: "is_word c \<Longrightarrow> \<not> is_space c"
  by (auto simp: is_word_def is_space_def Let_def)

lemma hash_not_space: "\<not> is_space CHR ''#''"
  by (simp add: is_space_def ord_def)

lemma newline_space: "is_space (CHR 0x0A)"
  by (simp add: is_space_def ord_def)

lemma lookahead_iff: "lookahead rest = (rest = [] \<or> is_space (hd rest))"
  by (cases rest) (auto simp: lookahead_def at_dollar_def newline_space)

lemma word_plus_Some:
  "word_plus rest n = Some m \<Longrightarrow> 0 < m \<and> m \<le> n \<and> lookahead (drop m rest)"
  by (induction n) (auto split: if_splits)

lemma word_plus_None:
  "word_plus rest n = None \<Longrightarrow> 0 < m \<Longrightarrow> m \<le> n \<Longrightarrow> \<not> lookahead (drop m rest)"
  by (induction n) (auto split: if_splits simp: le_Suc_eq)

lemma word_plus_top:
  "0 < n \<Longrightarrow> lookahead (drop n rest) \<Longrightarrow> word_plus rest n = Some n"
  by (cases n) simp_all

lemma drop_in_word_run:
  assumes "m < word_run rest"
  shows "drop m rest \<noteq> [] \<and> is_word (hd (drop m rest))"
proof -
  have len: "m < length (takeWhile is_word rest)"
    using assms by (simp add: word_run_def)
  then have "m < length rest"
    using length_takeWhile_le [of is_word rest] by linarith
  moreover have "is_word (rest ! m)"
    using len by (metis nth_mem set_takeWhileD takeWhile_nth)
  ultimately show ?thesis
    by (simp add: hd_drop_conv_nth)
qed

lemma word_plus_run:
  "word_plus rest (word_run rest) = Some m \<Longrightarrow> m = word_run rest"
  using word_plus_Some [of rest "word_run rest" m] drop_in_word_run [of m rest]
  by (auto simp: lookahead_iff word_not_space le_less)


lemma concat_seg_text_Lit: "concat (map (seg_text repl) (map Lit s)) = s"
  by (induction s) simp_all

lemma hash_match_iff:
  "TAGS_WITH_HASH_RE pre (c # cs) = Some n \<longleftrightarrow>
     behind_boundary pre \<and> c = CHR ''#'' \<and> 0 < word_run cs
     \<and> lookahead (drop (word_run cs) cs) \<and> n = Suc (word_run cs)"
proof
  assume "TAGS_WITH_HASH_RE pre (c # cs) = Some n"
  then obtain m where b: "behind_boundary pre" and c: "c = CHR ''#''"
    and m: "word_plus cs (word_run cs) = Some m" and n: "n = Suc m"
    by (auto simp: TAGS_WITH_HASH_RE_def split: if_splits)
  from m have "m = word_run cs" by (rule word_plus_run)
  with word_plus_Some [OF m] b c n
  show "behind_boundary pre \<and> c = CHR ''#'' \<and> 0 < word_run cs
     \<and> lookahead (drop (word_run cs) cs) \<and> n = Suc (word_run cs)"
    by simp
next
  assume "behind_boundary pre \<and> c = CHR ''#'' \<and> 0 < word_run cs
     \<and> lookahead (drop (word_run cs) cs) \<and> n = Suc (word_run cs)"
  then show "TAGS_WITH_HASH_RE pre (c # cs) = Some n"
    by (simp add: TAGS_WITH_HASH_RE_def word_plus_top)
qed

lemma token_of_word_run:
  "lookahead (drop (word_run cs) cs) \<Longrightarrow>
     takeWhile (\<lambda>x. \<not> is_space x) cs = takeWhile is_word cs"
proof (induction cs)
  case Nil
  show ?case by simp
next
  case (Cons x xs)
  show ?case
  proof (cases "is_word x")
    case True
    with Cons show ?thesis
      by (simp add: word_run_def word_not_space)
  next
    case False
    with Cons.prems show ?thesis
      by (simp add: word_run_def lookahead_iff)
  qed
qed

lemma word_run_of_token:
  "list_all is_word (takeWhile (\<lambda>x. \<not> is_space x) cs) \<Longrightarrow>
     takeWhile is_word cs = takeWhile (\<lambda>x. \<not> is_space x) cs
     \<and> lookahead (drop (word_run cs) cs)"
proof (induction cs)
  case Nil
  show ?case by (simp add: word_run_def lookahead_iff)
next
  case (Cons x xs)
  show ?case
  proof (cases "is_space x")
    case True
    then have "\<not> is_word x" using word_not_space by blast
    with True show ?thesis by (simp add: word_run_def lookahead_iff)
  next
    case False
    with Cons.prems have x: "is_word x"
      and w: "list_all is_word (takeWhile (\<lambda>x. \<not> is_space x) xs)" by simp_all
    from Cons.IH [OF w] have "takeWhile is_word xs = takeWhile (\<lambda>x. \<not> is_space x) xs"
      and "lookahead (drop (word_run xs) xs)" by simp_all
    with x False show ?thesis
      by (simp add: word_run_def)
  qed
qed

lemma hash_match_token:
  "TAGS_WITH_HASH_RE pre (c # cs) = Some n \<Longrightarrow>
     is_hashtag_token (c # takeWhile (\<lambda>x. \<not> is_space x) cs)
     \<and> n = Suc (length (takeWhile (\<lambda>x. \<not> is_space x) cs))"
proof -
  assume "TAGS_WITH_HASH_RE pre (c # cs) = Some n"
  then have c: "c = CHR ''#''" and k: "0 < word_run cs"
    and la: "lookahead (drop (word_run cs) cs)" and n: "n = Suc (word_run cs)"
    by (simp_all add: hash_match_iff)
  have t: "takeWhile (\<lambda>x. \<not> is_space x) cs = takeWhile is_word cs"
    using la by (rule token_of_word_run)
  have "list_all is_word (takeWhile is_word cs)"
    by (simp add: list_all_iff) (metis set_takeWhileD)
  with c k n t show ?thesis
    by (auto simp: is_hashtag_token_def word_run_def)
qed

lemma token_hash_match:
  assumes "behind_boundary pre" and "is_hashtag_token (c # takeWhile (\<lambda>x. \<not> is_space x) cs)"
  shows "TAGS_WITH_HASH_RE pre (c # cs) = Some (Suc (length (takeWhile (\<lambda>x. \<not> is_space x) cs)))"
proof -
  from assms(2) have c: "c = CHR ''#''" and ne: "takeWhile (\<lambda>x. \<not> is_space x) cs \<noteq> []"
    and w: "list_all is_word (takeWhile (\<lambda>x. \<not> is_space x) cs)"
    by (simp_all add: is_hashtag_token_def)
  from word_run_of_token [OF w]
  have t: "takeWhile is_word cs = takeWhile (\<lambda>x. \<not> is_space x) cs"
    and la: "lookahead (drop (word_run cs) cs)" by simp_all
  from t ne have "0 < word_run cs" by (simp add: word_run_def)
  with assms(1) c la t show ?thesis
    by (simp add: hash_match_iff word_run_def)
qed

lemma scan_inside_token:
  "pre \<noteq> [] \<Longrightarrow> \<not> is_space (last pre) \<Longrightarrow> \<forall>x\<in>set xs. \<not> is_space x \<Longrightarrow>
     re_scan TAGS_WITH_HASH_RE pre (xs @ ys) = map Lit xs @ re_scan TAGS_WITH_HASH_RE (pre @ xs) ys"
proof (induction xs arbitrary: pre)
  case Nil
  show ?case by simp
next
  case (Cons x xs)
  have "TAGS_WITH_HASH_RE pre (x # xs @ ys) = None"
    using Cons.prems(1,2) by (simp add: TAGS_WITH_HASH_RE_def behind_boundary_def)
  moreover have "re_scan TAGS_WITH_HASH_RE (pre @ [x]) (xs @ ys)
      = map Lit xs @ re_scan TAGS_WITH_HASH_RE ((pre @ [x]) @ xs) ys"
    using Cons.prems(3) by (intro Cons.IH) simp_all
  ultimately show ?case by simp
qed

lemma scan_rewrite_tokens:
  "behind_boundary pre \<or> s = [] \<or> is_space (hd s) \<Longrightarrow>
     concat (map (seg_text (\<lambda>tag. ''tags:'' @ drop 1 tag)) (re_scan TAGS_WITH_HASH_RE pre s))
       = rewrite_tokens s"
proof (induction s arbitrary: pre rule: rewrite_tokens.induct)
  case 1
  show ?case by simp
next
  case (2 c cs)
  let ?t = "takeWhile (\<lambda>x. \<not> is_space x) cs"
  let ?r = "dropWhile (\<lambda>x. \<not> is_space x) cs"
  let ?out = "\<lambda>pre s. concat (map (seg_text (\<lambda>tag. ''tags:'' @ drop 1 tag))
                 (re_scan TAGS_WITH_HASH_RE pre s))"
  have r: "?r = [] \<or> is_space (hd ?r)"
    using hd_dropWhile [of "\<lambda>x. \<not> is_space x" cs] by auto
  show ?case
  proof (cases "is_space c")
    case True
    then have "c \<noteq> CHR ''#''" using hash_not_space by auto
    then have "TAGS_WITH_HASH_RE pre (c # cs) = None"
      by (simp add: TAGS_WITH_HASH_RE_def)
    moreover have "?out (pre @ [c]) cs = rewrite_tokens cs"
      using True by (intro "2.IH"(1)) (simp_all add: behind_boundary_def)
    ultimately show ?thesis using True by simp
  next
    case False
    with "2.prems" have b: "behind_boundary pre" by simp
    have tail: "?out pre' ?r = rewrite_tokens ?r" for pre'
      using False r by (intro "2.IH"(2)) simp_all
    show ?thesis
    proof (cases "TAGS_WITH_HASH_RE pre (c # cs)")
      case (Some n)
      from hash_match_token [OF Some]
      have tok: "is_hashtag_token (c # ?t)" and n: "n = Suc (length ?t)" by simp_all
      have "take (length ?t) cs = ?t" "drop (length ?t) cs = ?r"
        by (metis append_eq_conv_conj takeWhile_dropWhile_id)+
      with Some n tok False tail show ?thesis
        by (simp add: rewrite_token_def)
    next
      case None
      with token_hash_match [OF b] have tok: "\<not> is_hashtag_token (c # ?t)" by fastforce
      have "re_scan TAGS_WITH_HASH_RE (pre @ [c]) (?t @ ?r)
          = map Lit ?t @ re_scan TAGS_WITH_HASH_RE ((pre @ [c]) @ ?t) ?r"
        using False by (intro scan_inside_token) (auto dest: set_takeWhileD)
      then have "?out (pre @ [c]) cs = ?t @ ?out ((pre @ [c]) @ ?t) ?r"
        by (simp del: map_map add: concat_seg_text_Lit)
      with None tok False tail show ?thesis
        by (simp add: rewrite_token_def)
    qed
  qed
qed



lemma re_scan_no_match:
  "(\<And>i. i \<le> length rest \<Longrightarrow> p (pre @ take i rest) (drop i rest) = None)
   \<Longrightarrow> re_scan p pre rest = map Lit rest"
proof (induction rest arbitrary: pre)
  case Nil
  show ?case by simp
next
  case (Cons c cs)
  have here: "p pre (c # cs) = None"
    using Cons.prems [of 0] by simp
  have later: "p ((pre @ [c]) @ take i cs) (drop i cs) = None" if "i \<le> length cs" for i
    using Cons.prems [of "Suc i"] that by simp
  have "re_scan p (pre @ [c]) cs = map Lit cs"
    by (rule Cons.IH) (rule later)
  with here show ?case by simp
qed

lemma concat_seg_match_Lit: "concat (map seg_match (map Lit s)) = []"
  by (induction s) simp_all


section \<open>Tag extraction: results\<close>

text \<open>
  C2, as the code has it. The tag pattern matches the name only: the hash is looked at, not
  consumed. So extracting tags from \<^verbatim>\<open>"Shopping #groceries list"\<close> gives the tag set
  \<open>{groceries}\<close> and the content \<^verbatim>\<open>"Shopping # list"\<close>, with the hash and both spaces left
  in place.
\<close>

theorem extract_tags_shopping:
  "extract_tags ''Shopping #groceries list'' = Inr (''Shopping # list'', {''groceries''})"
  by code_simp

text \<open>C2 as the specification words it (stripped content \<^verbatim>\<open>"Shopping list"\<close>) does not
  hold.\<close>

theorem extract_tags_shopping_counterexample:
  "extract_tags ''Shopping #groceries list'' \<noteq> Inr (''Shopping list'', {''groceries''})"
  by code_simp

text \<open>
  C8: a content string in which the tag pattern matches at no position comes back unchanged,
  with the empty tag set, and no error is raised.
\<close>

theorem extract_tags_no_match:
  assumes "\<forall>i\<le>length content. TAGS_RE (take i content) (drop i content) = None"
  shows "extract_tags content = Inr (content, {})"
proof -
  have "re_scan TAGS_RE [] content = map Lit content"
    using assms by (intro re_scan_no_match) simp
  then show ?thesis
    by (simp del: map_map add: extract_tags_def re_extract_def re_sub_def lower_all_def
        concat_seg_text_Lit concat_seg_match_Lit)
qed

lemma all_le_upt: "(\<forall>i\<le>n. P i) = list_all P [0..<Suc n]"
  by (auto simp: list_all_iff less_Suc_eq_le)

theorem extract_tags_no_match_witness:
  "list_all (\<lambda>i. TAGS_RE (take i ''C# and a#b, #x-y'') (drop i ''C# and a#b, #x-y'') = None)
     [0..<Suc (length ''C# and a#b, #x-y'')]
   \<and> extract_tags ''C# and a#b, #x-y'' = Inr (''C# and a#b, #x-y'', {})"
proof -
  have h: "list_all (\<lambda>i. TAGS_RE (take i ''C# and a#b, #x-y'') (drop i ''C# and a#b, #x-y'') = None)
     [0..<Suc (length ''C# and a#b, #x-y'')]"
    by code_simp
  then have "\<forall>i\<le>length ''C# and a#b, #x-y''.
      TAGS_RE (take i ''C# and a#b, #x-y'') (drop i ''C# and a#b, #x-y'') = None"
    unfolding all_le_upt .
  from extract_tags_no_match [OF this] h show ?thesis by simp
qed

section \<open>Query preprocessing: results\<close>

text \<open>
  C4: preprocessing strips the surrounding whitespace and rewrites exactly the hashtag tokens
  that meet the boundary rule into \<^verbatim>\<open>tags:<name>\<close>; \<^verbatim>\<open>"#groceries"\<close> becomes
  \<^verbatim>\<open>"tags:groceries"\<close>, and a hash elsewhere (after a letter, or before a name that is not
  made of word characters up to the next whitespace) stays as it is.
\<close>

theorem pre_process_search_term_rewrites:
  "pre_process_search_term term = rewrite_tokens (strip term)
   \<and> pre_process_search_term ''#groceries'' = ''tags:groceries''
   \<and> pre_process_search_term ''  milk #groceries #to_do  '' = ''milk tags:groceries tags:to_do''
   \<and> pre_process_search_term ''C# notes#groceries #gro-ceries'' = ''C# notes#groceries #gro-ceries''"
proof -
  have "pre_process_search_term t = rewrite_tokens (strip t)" for t
    unfolding pre_process_search_term_def re_sub_def
    by (rule scan_rewrite_tokens) (simp add: behind_boundary_def)
  moreover have "pre_process_search_term ''#groceries'' = ''tags:groceries''"
    by code_simp
  moreover have "pre_process_search_term ''  milk #groceries #to_do  ''
      = ''milk tags:groceries tags:to_do''"
    by code_simp
  moreover have "pre_process_search_term ''C# notes#groceries #gro-ceries''
      = ''C# notes#groceries #gro-ceries''"
    by code_simp
  ultimately show ?thesis by simp
qed

theorem pre_process_search_term_rewrites_witness:
  "pre_process_search_term '' find #Groceries now '' = ''find tags:Groceries now''"
proof -
  have "pre_process_search_term '' find #Groceries now ''
      = rewrite_tokens (strip '' find #Groceries now '')"
    using pre_process_search_term_rewrites [of "'' find #Groceries now ''"] by (rule conjunct1)
  also have "\<dots> = ''find tags:Groceries now''"
    by code_simp
  finally show ?thesis .
qed

section \<open>Resolving a note's file\<close>

lemma str_in_iff: "str_in x s \<longleftrightarrow> (\<exists>pre post. s = pre @ x @ post)"
proof (induction s)
  case Nil
  show ?case by auto
next
  case (Cons c cs)
  show ?case
  proof
    assume "str_in x (c # cs)"
    then consider "take (length x) (c # cs) = x" | "str_in x cs" by auto
    then show "\<exists>pre post. c # cs = pre @ x @ post"
    proof cases
      case 1
      then have "c # cs = [] @ x @ drop (length x) (c # cs)"
        by (metis append_Nil append_take_drop_id)
      then show ?thesis by blast
    next
      case 2
      with Cons.IH obtain pre post where "cs = pre @ x @ post" by blast
      then have "c # cs = (c # pre) @ x @ post" by simp
      then show ?thesis by blast
    qed
  next
    assume "\<exists>pre post. c # cs = pre @ x @ post"
    then obtain pre post where eq: "c # cs = pre @ x @ post" by blast
    show "str_in x (c # cs)"
    proof (cases pre)
      case Nil
      with eq have "take (length x) (c # cs) = x" by simp
      then show ?thesis by simp
    next
      case (Cons p pre')
      with eq have "cs = pre' @ x @ post" by simp
      with Cons.IH have "str_in x cs" by blast
      then show ?thesis by simp
    qed
  qed
qed

lemma foldl_keep_last:
  "foldl (\<lambda>kept x. if P x then x else kept) a xs
     = (if filter P xs = [] then a else last (filter P xs))"
  by (induction xs rule: rev_induct) simp_all

text \<open>
  C10: \<^verbatim>\<open>Note.filepath\<close> goes through every markdown file that the glob finds below the note
  root and returns the last path that contains the note's file name as a substring, or the
  empty string when no path does; it raises nothing. In the store with \<^verbatim>\<open>a.md\<close> and
  \<^verbatim>\<open>x/data.md\<close> the notes \<^verbatim>\<open>a\<close> and \<^verbatim>\<open>data\<close> resolve to the same file, and a note that has
  no file resolves to the empty string.
\<close>

theorem Note_filepath_last_match:
  "Note_filepath st n =
     (let found = filter (str_in (Note_filename n)) (glob_md st)
      in if found = [] then [] else last found)
   \<and> glob_md store_a_data = [''/notes/a.md'', ''/notes/x/data.md'']
   \<and> Note_filepath store_a_data \<lparr>n_title = ''a'', n_subdirs = []\<rparr> = ''/notes/x/data.md''
   \<and> Note_filepath store_a_data \<lparr>n_title = ''data'', n_subdirs = []\<rparr> = ''/notes/x/data.md''
   \<and> Note_filepath store_a_data \<lparr>n_title = ''missing'', n_subdirs = []\<rparr> = []"
proof -
  have "Note_filepath st n =
     (let found = filter (str_in (Note_filename n)) (glob_md st)
      in if found = [] then [] else last found)"
    by (simp add: Note_filepath_def foldl_keep_last)
  moreover have "glob_md store_a_data = [''/notes/a.md'', ''/notes/x/data.md'']"
    by code_simp
  moreover have "Note_filepath store_a_data \<lparr>n_title = ''a'', n_subdirs = []\<rparr> = ''/notes/x/data.md''"
    by code_simp
  moreover have "Note_filepath store_a_data \<lparr>n_title = ''data'', n_subdirs = []\<rparr> = ''/notes/x/data.md''"
    by code_simp
  moreover have "Note_filepath store_a_data \<lparr>n_title = ''missing'', n_subdirs = []\<rparr> = []"
    by code_simp
  ultimately show ?thesis by simp
qed

theorem Note_filepath_last_match_witness:
  "Note_filepath store_a_b \<lparr>n_title = ''b'', n_subdirs = []\<rparr> = ''/notes/b.md''"
proof -
  have "Note_filepath store_a_b \<lparr>n_title = ''b'', n_subdirs = []\<rparr> =
     (let found = filter (str_in (Note_filename \<lparr>n_title = ''b'', n_subdirs = []\<rparr>)) (glob_md store_a_b)
      in if found = [] then [] else last found)"
    using Note_filepath_last_match [of store_a_b "\<lparr>n_title = ''b'', n_subdirs = []\<rparr>"]
    by (rule conjunct1)
  also have "\<dots> = ''/notes/b.md''"
    by code_simp
  finally show ?thesis .
qed

section \<open>Listing the tags: result\<close>

text \<open>
  C3, as the code has it: the class has no attribute \<^verbatim>\<open>update_index_debounced\<close>, so for
  every note store and every index \<^verbatim>\<open>get_tags\<close> raises \<^verbatim>\<open>AttributeError\<close>; it neither
  synchronizes nor returns the tags.
\<close>

theorem get_tags_raises: "get_tags st index = Inl AttributeError"
  by (simp add: get_tags_def Flatnotes_attributes_def)

section \<open>Synchronizing the index: results\<close>

lemma sync_entry_missing:
  "\<not> path_exists st (path_join (root st) (d_filename d)) \<Longrightarrow>
     sync_entry st d (wr, indexed) = Inr (delete_by_term wr (d_filename d), indexed)"
  by (simp add: sync_entry_def)

lemma sync_entry_unchanged:
  "getmtime st (path_join (root st) (d_filename d)) = Inr (d_last_modified d) \<Longrightarrow>
     sync_entry st d (wr, indexed) = Inr (wr, insert (d_filename d) indexed)"
  by (auto simp: sync_entry_def path_exists_def getmtime_def split: option.splits)

lemma add_note_to_index_Inr:
  assumes "add_note_to_index st wr n = Inr wr'"
  shows "w_clear wr' = w_clear wr"
    and "w_deleted wr' = Note_filename n # w_deleted wr"
    and "length (w_added wr') = Suc (length (w_added wr))"
  using assms
  by (auto simp: add_note_to_index_def update_document_def add_document_def delete_by_term_def
      split: sum.splits prod.splits)

lemma getmtime_in_root:
  "in_root st d \<Longrightarrow> \<exists>mtime. getmtime st (path_join (root st) (d_filename d)) = Inr mtime"
  by (auto simp: in_root_def path_exists_def getmtime_def split: option.splits)

lemma sync_entry_Inr:
  assumes "sync_entry st d (wr, ix) = Inr (wr', ix')"
    and "in_root st d \<longrightarrow> is_key (d_filename d)"
  shows "w_clear wr' = w_clear wr"
    and "ix' = (if in_root st d then insert (d_filename d) ix else ix)"
    and "set (w_deleted wr') =
           set (w_deleted wr) \<union> (if in_root st d \<and> \<not> stale st d then {} else {d_filename d})"
    and "length (w_added wr') =
           length (w_added wr) + (if in_root st d \<and> stale st d then 1 else 0)"
proof -
  show "w_clear wr' = w_clear wr"
    using assms(1)
    by (auto simp: sync_entry_def Let_def delete_by_term_def
        split: if_splits sum.splits dest: add_note_to_index_Inr(1))
  show "ix' = (if in_root st d then insert (d_filename d) ix else ix)"
    using assms(1)
    by (auto simp: sync_entry_def Let_def in_root_def split: if_splits sum.splits)
  show "set (w_deleted wr') =
           set (w_deleted wr) \<union> (if in_root st d \<and> \<not> stale st d then {} else {d_filename d})"
  proof (cases "in_root st d")
    case False
    with assms(1) show ?thesis
      by (auto simp: sync_entry_def Let_def in_root_def delete_by_term_def)
  next
    case True
    then obtain mtime where m: "getmtime st (path_join (root st) (d_filename d)) = Inr mtime"
      using getmtime_in_root by blast
    show ?thesis
    proof (cases "stale st d")
      case False
      with True m assms(1) show ?thesis
        by (auto simp: sync_entry_def Let_def in_root_def stale_def)
    next
      case st: True
      with True m assms(1) obtain n where
        n: "Note_init (strip_ext (d_filename d)) = Inr n"
        and a: "add_note_to_index st wr n = Inr wr'"
        by (auto simp: sync_entry_def Let_def in_root_def stale_def split: sum.splits)
      from n assms(2) True have "Note_filename n = d_filename d"
        by (simp add: is_key_def)
      with add_note_to_index_Inr(2) [OF a] True st show ?thesis by auto
    qed
  qed
  show "length (w_added wr') =
           length (w_added wr) + (if in_root st d \<and> stale st d then 1 else 0)"
  proof (cases "in_root st d")
    case False
    with assms(1) show ?thesis
      by (auto simp: sync_entry_def Let_def in_root_def delete_by_term_def)
  next
    case True
    then obtain mtime where m: "getmtime st (path_join (root st) (d_filename d)) = Inr mtime"
      using getmtime_in_root by blast
    with True assms(1) show ?thesis
      by (auto simp: sync_entry_def Let_def in_root_def stale_def
          split: sum.splits if_splits dest: add_note_to_index_Inr(3))
  qed
qed

lemma sync_entries_Inr:
  assumes "sync_entries st ds (wr, ix) = Inr (wr', ix')"
    and "\<forall>d\<in>set ds. in_root st d \<longrightarrow> is_key (d_filename d)"
  shows "w_clear wr' = w_clear wr
    \<and> ix' = ix \<union> d_filename ` {d \<in> set ds. in_root st d}
    \<and> set (w_deleted wr') =
         set (w_deleted wr) \<union> d_filename ` {d \<in> set ds. \<not> (in_root st d \<and> \<not> stale st d)}
    \<and> length (w_added wr') =
         length (w_added wr) + length (filter (\<lambda>d. in_root st d \<and> stale st d) ds)"
  using assms
proof (induction ds arbitrary: wr ix)
  case Nil
  then show ?case by simp
next
  case (Cons d ds)
  from Cons.prems(1) obtain wr1 ix1 where
    one: "sync_entry st d (wr, ix) = Inr (wr1, ix1)"
    and rest: "sync_entries st ds (wr1, ix1) = Inr (wr', ix')"
    by (auto split: sum.splits)
  from Cons.prems(2) have k: "in_root st d \<longrightarrow> is_key (d_filename d)" by simp
  note s = sync_entry_Inr [OF one k]
  from Cons.prems(2) have "\<forall>d\<in>set ds. in_root st d \<longrightarrow> is_key (d_filename d)" by simp
  from Cons.IH [OF rest this] s show ?case
    by (auto split: if_splits)
qed

lemma add_new_Inr:
  "add_new st ix ns wr = Inr wr' \<Longrightarrow>
     w_clear wr' = w_clear wr
     \<and> set (w_deleted wr') =
         set (w_deleted wr) \<union> Note_filename ` {n \<in> set ns. Note_filename n \<notin> ix}
     \<and> length (w_added wr') =
         length (w_added wr) + length (filter (\<lambda>n. Note_filename n \<notin> ix) ns)"
proof (induction ns arbitrary: wr)
  case Nil
  then show ?case by simp
next
  case (Cons n ns)
  show ?case
  proof (cases "Note_filename n \<in> ix")
    case True
    with Cons.prems have "add_new st ix ns wr = Inr wr'" by simp
    from Cons.IH [OF this] True show ?thesis by auto
  next
    case False
    with Cons.prems obtain wr1 where
      a: "add_note_to_index st wr n = Inr wr1" and r: "add_new st ix ns wr1 = Inr wr'"
      by (auto split: sum.splits)
    from Cons.IH [OF r] add_note_to_index_Inr [OF a] False show ?thesis by auto
  qed
qed

lemma get_notes_loop_length:
  "get_notes_loop st ps = Inr found \<Longrightarrow> length found = length ps"
  by (induction ps arbitrary: found) (auto split: sum.splits)

lemma length_filter_split:
  "length (filter (\<lambda>x. P x \<and> \<not> Q x) xs) + length (filter (\<lambda>x. P x \<and> Q x) xs)
     = length (filter P xs)"
  by (induction xs) auto

lemma length_filter_distinct_key:
  assumes "distinct (map f xs)"
  shows "length (filter P xs) = card (f ` {x \<in> set xs. P x})"
proof -
  have "distinct (map f (filter P xs))"
    using assms by (rule distinct_map_filter)
  then have "card (set (map f (filter P xs))) = length (map f (filter P xs))"
    by (rule distinct_card)
  moreover have "set (map f (filter P xs)) = f ` {x \<in> set xs. P x}"
    by auto
  ultimately show ?thesis by simp
qed

lemma image_restrict: "A \<subseteq> g ` S \<Longrightarrow> g ` {y \<in> S. g y \<in> A} = A"
  by auto

lemma length_filter_keys:
  assumes "distinct (map f xs)" and "distinct (map g ys)"
    and "f ` {x \<in> set xs. P x} \<subseteq> g ` set ys"
  shows "length (filter P xs) = length (filter (\<lambda>y. g y \<in> f ` {x \<in> set xs. P x}) ys)"
proof -
  define A where "A = f ` {x \<in> set xs. P x}"
  have "g ` {y \<in> set ys. g y \<in> A} = A"
    using assms(3) unfolding A_def [symmetric] by (rule image_restrict)
  moreover have "length (filter P xs) = card A"
    unfolding A_def by (rule length_filter_distinct_key [OF assms(1)])
  moreover have "length (filter (\<lambda>y. g y \<in> A) ys) = card (g ` {y \<in> set ys. g y \<in> A})"
    by (rule length_filter_distinct_key [OF assms(2)])
  ultimately show ?thesis
    unfolding A_def by simp
qed

text \<open>
  When the keys of the notes (the file names that their titles give) are pairwise distinct
  and the index fits the store, a completed \<^verbatim>\<open>update_index()\<close> leaves as many entries in the
  index as the glob returns paths.
\<close>

lemma update_index_length_glob:
  assumes fin: "update_index st index False = Inr index'"
    and ns: "get_notes st = Inr notes"
    and keys: "distinct (map Note_filename notes)"
    and fits: "index_fits st notes index"
  shows "length index' = length (glob_md st)"
proof -
  from fin ns obtain wr ix wr' where
    l1: "sync_entries st index (index_writer\<lparr>w_clear := False\<rparr>, {}) = Inr (wr, ix)"
    and l2: "add_new st ix notes wr = Inr wr'"
    and c: "index' = commit index wr'"
    by (auto simp: update_index_def split: sum.splits prod.splits)
  from fits have dist: "distinct (map d_filename index)"
    and each: "\<forall>d\<in>set index. in_root st d \<longrightarrow>
        is_key (d_filename d) \<and> d_filename d \<in> Note_filename ` set notes"
    by (auto simp: index_fits_def list_all_iff)
  from each have k: "\<forall>d\<in>set index. in_root st d \<longrightarrow> is_key (d_filename d)" by blast
  from sync_entries_Inr [OF l1 k]
  have clear1: "\<not> w_clear wr"
    and ix: "ix = d_filename ` {d \<in> set index. in_root st d}"
    and del1: "set (w_deleted wr) =
        d_filename ` {d \<in> set index. \<not> (in_root st d \<and> \<not> stale st d)}"
    and add1: "length (w_added wr) = length (filter (\<lambda>d. in_root st d \<and> stale st d) index)"
    by (simp_all add: index_writer_def)
  from add_new_Inr [OF l2] clear1
  have clear2: "\<not> w_clear wr'"
    and del2: "set (w_deleted wr') =
        set (w_deleted wr) \<union> Note_filename ` {n \<in> set notes. Note_filename n \<notin> ix}"
    and add2: "length (w_added wr') =
        length (w_added wr) + length (filter (\<lambda>n. Note_filename n \<notin> ix) notes)"
    by simp_all
  have inj: "inj_on d_filename (set index)"
    using dist by (simp add: distinct_map)
  have kept: "filter (\<lambda>d. d_filename d \<notin> set (w_deleted wr')) index
      = filter (\<lambda>d. in_root st d \<and> \<not> stale st d) index"
  proof (rule filter_cong [OF refl])
    fix d assume d: "d \<in> set index"
    show "(d_filename d \<notin> set (w_deleted wr')) = (in_root st d \<and> \<not> stale st d)"
    proof
      assume "d_filename d \<notin> set (w_deleted wr')"
      with d del1 del2 show "in_root st d \<and> \<not> stale st d" by blast
    next
      assume ok: "in_root st d \<and> \<not> stale st d"
      have "d_filename d \<notin> set (w_deleted wr)"
      proof
        assume "d_filename d \<in> set (w_deleted wr)"
        with del1 obtain d' where "d' \<in> set index" "d_filename d' = d_filename d"
          "\<not> (in_root st d' \<and> \<not> stale st d')" by auto
        with inj d ok show False by (auto dest: inj_onD)
      qed
      moreover have "d_filename d \<in> ix" using ix d ok by blast
      ultimately show "d_filename d \<notin> set (w_deleted wr')"
        using del2 by auto
    qed
  qed
  have sub: "d_filename ` {d \<in> set index. in_root st d} \<subseteq> Note_filename ` set notes"
    using each by blast
  have "length index' =
      length (filter (\<lambda>d. in_root st d \<and> \<not> stale st d) index) + length (w_added wr')"
    using c clear2 kept by (simp add: commit_def)
  also have "\<dots> = length (filter (in_root st) index)
      + length (filter (\<lambda>n. Note_filename n \<notin> ix) notes)"
    using add1 add2 length_filter_split [of "in_root st" "stale st" index] by simp
  also have "length (filter (in_root st) index)
      = length (filter (\<lambda>n. Note_filename n \<in> ix) notes)"
    unfolding ix by (rule length_filter_keys [OF dist keys sub])
  also have "length (filter (\<lambda>n. Note_filename n \<in> ix) notes)
      + length (filter (\<lambda>n. Note_filename n \<notin> ix) notes) = length notes"
    by (rule sum_length_filter_compl)
  also have "length notes = length (glob_md st)"
    using ns by (simp add: get_notes_def get_notes_loop_length)
  finally show ?thesis .
qed



text \<open>
  C6, at an entry whose file \<^verbatim>\<open>/notes/a.md\<close> exists with a modification time (5) other than
  the stored one (3): the entry is replaced, but from \<^verbatim>\<open>/notes/x/data.md\<close>, the file that
  \<^verbatim>\<open>Note.filepath\<close> resolves for \<^verbatim>\<open>a.md\<close>. The new entry has that file's content, tags and
  modification time (7), not those of \<^verbatim>\<open>/notes/a.md\<close>.
\<close>

theorem sync_entry_other_file:
  "sync_entry store_a_data
     \<lparr>d_filename = ''a.md'', d_last_modified = 3, d_title = ''a'', d_content = ''old'', d_tags = {}\<rparr>
     (index_writer, {})
   = Inr (\<lparr>w_clear = False, w_deleted = [''a.md''],
           w_added = [\<lparr>d_filename = ''a.md'', d_last_modified = 7, d_title = ''a'',
                       d_content = ''delta #'', d_tags = {''two''}\<rparr>]\<rparr>,
          {''a.md''})"
  by code_simp

text \<open>A note whose key is in the committed index: after the commit the index has one entry
  with that key, the new one.\<close>

lemma add_note_to_index_replaces:
  assumes "add_note_to_index st index_writer n = Inr wr"
  shows "length (filter (\<lambda>d. d_filename d = Note_filename n) (commit index wr)) = 1"
  using assms
  by (auto simp: add_note_to_index_def update_document_def add_document_def delete_by_term_def
      index_writer_def commit_def filter_empty_conv split: sum.splits prod.splits)

text \<open>
  C9, at the store with \<^verbatim>\<open>a.md\<close> and \<^verbatim>\<open>x/a.md\<close> and the empty index: both files give the
  key \<^verbatim>\<open>a.md\<close>, neither is in \<^verbatim>\<open>indexed\<close>, and both are added through the one writer.
  After the commit the index has two entries with the key \<^verbatim>\<open>a.md\<close>.
\<close>

theorem update_index_two_entries_one_key:
  "update_index store_a_a [] False =
     Inr [\<lparr>d_filename = ''a.md'', d_last_modified = 9, d_title = ''a'', d_content = ''other'', d_tags = {}\<rparr>,
          \<lparr>d_filename = ''a.md'', d_last_modified = 9, d_title = ''a'', d_content = ''other'', d_tags = {}\<rparr>]"
  by code_simp


section \<open>Searching: results\<close>

lemma SearchResult_init_score:
  "SearchResult_init eng st h = Inr r \<Longrightarrow> sr_score r = score_of_hit h"
  by (auto simp: SearchResult_init_def Let_def split: sum.splits if_splits prod.splits)

lemma search_results_map:
  "search_results eng st hs = Inr rs \<longleftrightarrow> map (SearchResult_init eng st) hs = map Inr rs"
proof (induction hs arbitrary: rs)
  case Nil
  show ?case by auto
next
  case (Cons h hs)
  show ?case
  proof (cases "SearchResult_init eng st h")
    case (Inl e)
    then show ?thesis by (cases rs) auto
  next
    case (Inr r)
    show ?thesis
    proof (cases "search_results eng st hs")
      case (Inl e)
      with Inr Cons.IH show ?thesis by (cases rs) auto
    next
      case rest: (Inr rs')
      with Inr Cons.IH [of rs'] Cons.IH show ?thesis by (cases rs) auto
    qed
  qed
qed

lemma search_results_rev:
  "search_results eng st hs = Inr rs \<Longrightarrow> search_results eng st (rev hs) = Inr (rev rs)"
  by (simp add: search_results_map rev_map [symmetric])

lemma search_results_scores:
  "search_results eng st hs = Inr rs \<Longrightarrow> map sr_score rs = map score_of_hit hs"
proof (induction hs arbitrary: rs)
  case Nil
  then show ?case by simp
next
  case (Cons h hs)
  then show ?case
    by (auto split: sum.splits dest: SearchResult_init_score)
qed

lemma sort_by_title: "sort_by ''title'' = Some ''title''"
  by (simp add: sort_by_def)

lemma sort_by_score: "sort_by ''score'' = None"
  by (simp add: sort_by_def)

lemma sort_by_last_modified: "sort_by ''last_modified'' = Some ''last_modified''"
  by (simp add: sort_by_def)

lemma scores_desc:
  "sorted_wrt (\<lambda>a b. b \<le> a) (map m_score (sort_key (\<lambda>m. - m_score m) ms))"
proof -
  have "sorted (map (\<lambda>m. - m_score m) (sort_key (\<lambda>m. - m_score m) ms))"
    by (rule sorted_sort_key)
  then show ?thesis
    by (simp add: sorted_wrt_map)
qed

lemma sorted_wrt_take: "sorted_wrt P xs \<Longrightarrow> sorted_wrt P (take n xs)"
  by (induction xs arbitrary: n) (auto simp: take_Cons' dest: in_set_takeD)

lemma search_Inr:
  assumes "search eng st index term sort_arg order limit = Inr (index', rs)"
  obtains ms where "update_index st index False = Inr index'"
    and "parse_and_match eng index'
           (if pre_process_search_term term = ''*'' then Every
            else Parsed (pre_process_search_term term)) = Inr ms"
    and "search_results eng st
           (searcher_search ms (sort_by sort_arg) (sort_direction sort_arg order) limit) = Inr rs"
  using assms
  by (auto simp: search_def Let_def split: sum.splits)

lemma search_from_parts:
  assumes "update_index st index False = Inr index'"
    and "parse_and_match eng index'
           (if pre_process_search_term term = ''*'' then Every
            else Parsed (pre_process_search_term term)) = Inr ms"
    and "search_results eng st
           (searcher_search ms (sort_by sort_arg) (sort_direction sort_arg order) limit) = Inr rs"
  shows "search eng st index term sort_arg order limit = Inr (index', rs)"
  using assms by (simp add: search_def Let_def)

text \<open>
  C5, as the code has it. For every engine, store, index and term: when the limit does not
  cut the result set (there is no limit, or the limit is at least the number of entries that
  the query matches), a search ordered by title ascending and the same search ordered by
  title descending return the same results in exactly reversed order; a search ordered by
  relevance, descending, returns the results with the highest score first, whatever the
  limit; and the direction handed to the library for the relevance order is the negation of
  the one handed to it for either field order.
\<close>

theorem search_sort_order:
  "(search eng st index term ''title'' ''asc'' limit = Inr (index', rs)
      \<and> parse_and_match eng index'
           (if pre_process_search_term term = ''*'' then Every
            else Parsed (pre_process_search_term term)) = Inr ms
      \<and> (limit = None \<or> (\<exists>n. limit = Some n \<and> length ms \<le> n)) \<longrightarrow>
      search eng st index term ''title'' ''desc'' limit = Inr (index', rev rs))
   \<and> (search eng st index term ''score'' ''desc'' limit = Inr (index', rs) \<longrightarrow>
        (\<exists>scores. map sr_score rs = map Some scores \<and> sorted_wrt (\<lambda>a b. b \<le> a) scores))
   \<and> sort_direction ''score'' order = (\<not> sort_direction ''title'' order)
   \<and> sort_direction ''score'' order = (\<not> sort_direction ''last_modified'' order)"
proof (intro conjI impI)
  assume a: "search eng st index term ''title'' ''asc'' limit = Inr (index', rs)
      \<and> parse_and_match eng index'
           (if pre_process_search_term term = ''*'' then Every
            else Parsed (pre_process_search_term term)) = Inr ms
      \<and> (limit = None \<or> (\<exists>n. limit = Some n \<and> length ms \<le> n))"
  then have m: "parse_and_match eng index'
           (if pre_process_search_term term = ''*'' then Every
            else Parsed (pre_process_search_term term)) = Inr ms"
    and lim: "limit = None \<or> (\<exists>n. limit = Some n \<and> length ms \<le> n)"
    by simp_all
  from a obtain ms' where u: "update_index st index False = Inr index'"
    and m': "parse_and_match eng index'
           (if pre_process_search_term term = ''*'' then Every
            else Parsed (pre_process_search_term term)) = Inr ms'"
    and r': "search_results eng st
           (searcher_search ms' (sort_by ''title'') (sort_direction ''title'' ''asc'') limit) = Inr rs"
    by (blast elim: search_Inr)
  from m m' have "ms' = ms" by simp
  with r' have r: "search_results eng st
           (searcher_search ms (sort_by ''title'') (sort_direction ''title'' ''asc'') limit) = Inr rs"
    by simp
  have uncut: "searcher_search ms (sort_by ''title'') reverse limit
      = searcher_search ms (sort_by ''title'') reverse None" for reverse
    using lim
    by (auto simp: searcher_search_def Let_def order_matches_def sort_by_title)
  have "searcher_search ms (sort_by ''title'') (sort_direction ''title'' ''desc'') None
      = rev (searcher_search ms (sort_by ''title'') (sort_direction ''title'' ''asc'') None)"
    by (simp add: searcher_search_def sort_direction_def sort_by_title rev_map)
  with search_results_rev [OF r] uncut
  have "search_results eng st
      (searcher_search ms (sort_by ''title'') (sort_direction ''title'' ''desc'') limit) = Inr (rev rs)"
    by simp
  with u m show "search eng st index term ''title'' ''desc'' limit = Inr (index', rev rs)"
    by (rule search_from_parts)
next
  assume "search eng st index term ''score'' ''desc'' limit = Inr (index', rs)"
  then obtain ms where
    r: "search_results eng st
           (searcher_search ms (sort_by ''score'') (sort_direction ''score'' ''desc'') limit) = Inr rs"
    by (rule search_Inr)
  define capped where "capped =
    (case limit of None \<Rightarrow> sort_key (\<lambda>m. - m_score m) ms
     | Some n \<Rightarrow> take n (sort_key (\<lambda>m. - m_score m) ms))"
  have hits: "searcher_search ms (sort_by ''score'') (sort_direction ''score'' ''desc'') limit
      = map (to_hit None) capped"
    by (simp add: searcher_search_def Let_def sort_direction_def sort_by_score order_matches_def capped_def)
  have "map sr_score rs = map score_of_hit (map (to_hit None) capped)"
    using search_results_scores [OF r] hits by simp
  also have "\<dots> = map Some (map m_score capped)"
    by (simp add: score_of_hit_def to_hit_def)
  finally have "map sr_score rs = map Some (map m_score capped)" .
  moreover have "sorted_wrt (\<lambda>a b. b \<le> a) (map m_score capped)"
    using scores_desc [of ms] sorted_wrt_take [OF scores_desc [of ms]]
    by (simp add: capped_def take_map split: option.splits)
  ultimately show "\<exists>scores. map sr_score rs = map Some scores \<and> sorted_wrt (\<lambda>a b. b \<le> a) scores"
    by blast
next
  show "sort_direction ''score'' order = (\<not> sort_direction ''title'' order)"
    by (simp add: sort_direction_def sort_by_score sort_by_title)
  show "sort_direction ''score'' order = (\<not> sort_direction ''last_modified'' order)"
    by (simp add: sort_direction_def sort_by_score sort_by_last_modified)
qed

theorem search_sort_order_witness:
  "search engine_all store_a_b [] ''*'' ''title'' ''desc'' (Some 2) =
     Inr ([\<lparr>d_filename = ''a.md'', d_last_modified = 5, d_title = ''a'', d_content = ''alpha #'',
             d_tags = {''one''}\<rparr>,
           \<lparr>d_filename = ''b.md'', d_last_modified = 6, d_title = ''b'', d_content = ''beta # #'',
             d_tags = {''one'', ''two''}\<rparr>],
          [\<lparr>n_title = ''b'', n_subdirs = [], sr_matched_fields = {''title''}, sr_score = None,
             sr_title_highlights = Some ''b'', sr_content_highlights = None,
             sr_tag_matches = None\<rparr>,
           \<lparr>n_title = ''a'', n_subdirs = [], sr_matched_fields = {''title''}, sr_score = None,
             sr_title_highlights = Some ''a'', sr_content_highlights = None,
             sr_tag_matches = None\<rparr>])"
proof -
  let ?index = "[\<lparr>d_filename = ''a.md'', d_last_modified = 5, d_title = ''a'', d_content = ''alpha #'',
             d_tags = {''one''}\<rparr>,
           \<lparr>d_filename = ''b.md'', d_last_modified = 6, d_title = ''b'', d_content = ''beta # #'',
             d_tags = {''one'', ''two''}\<rparr>]"
  let ?rs = "[\<lparr>n_title = ''a'', n_subdirs = [], sr_matched_fields = {''title''}, sr_score = None,
             sr_title_highlights = Some ''a'', sr_content_highlights = None,
             sr_tag_matches = None\<rparr>,
           \<lparr>n_title = ''b'', n_subdirs = [], sr_matched_fields = {''title''}, sr_score = None,
             sr_title_highlights = Some ''b'', sr_content_highlights = None,
             sr_tag_matches = None\<rparr>]"
  let ?query = "if pre_process_search_term ''*'' = ''*'' then Every
            else Parsed (pre_process_search_term ''*'')"
  have a: "search engine_all store_a_b [] ''*'' ''title'' ''asc'' (Some 2) = Inr (?index, ?rs)"
    by code_simp
  obtain ms where m: "parse_and_match engine_all ?index ?query = Inr ms"
    and l: "length ms = 2"
    by (simp add: engine_all_def)
  have "search engine_all store_a_b [] ''*'' ''title'' ''asc'' (Some 2) = Inr (?index, ?rs)
      \<and> parse_and_match engine_all ?index ?query = Inr ms
      \<and> (Some (2::nat) = None \<or> (\<exists>n. Some (2::nat) = Some n \<and> length ms \<le> n)) \<longrightarrow>
      search engine_all store_a_b [] ''*'' ''title'' ''desc'' (Some 2) = Inr (?index, rev ?rs)"
    using search_sort_order by (rule conjunct1)
  with a m l show ?thesis by simp
qed

text \<open>
  C5 as the specification words it, for every query, does not hold: the limit is part of
  the query, and with the limit 1 on two matching notes the search by title ascending
  returns the note \<^verbatim>\<open>a\<close> and the search by title descending returns the note \<^verbatim>\<open>b\<close>, which
  is not the reverse.
\<close>

theorem search_sort_order_counterexample:
  "search engine_all store_a_b [] ''*'' ''title'' ''asc'' (Some 1) =
     Inr ([\<lparr>d_filename = ''a.md'', d_last_modified = 5, d_title = ''a'', d_content = ''alpha #'',
             d_tags = {''one''}\<rparr>,
           \<lparr>d_filename = ''b.md'', d_last_modified = 6, d_title = ''b'', d_content = ''beta # #'',
             d_tags = {''one'', ''two''}\<rparr>],
          [\<lparr>n_title = ''a'', n_subdirs = [], sr_matched_fields = {''title''}, sr_score = None,
             sr_title_highlights = Some ''a'', sr_content_highlights = None,
             sr_tag_matches = None\<rparr>])
   \<and> search engine_all store_a_b [] ''*'' ''title'' ''desc'' (Some 1) =
     Inr ([\<lparr>d_filename = ''a.md'', d_last_modified = 5, d_title = ''a'', d_content = ''alpha #'',
             d_tags = {''one''}\<rparr>,
           \<lparr>d_filename = ''b.md'', d_last_modified = 6, d_title = ''b'', d_content = ''beta # #'',
             d_tags = {''one'', ''two''}\<rparr>],
          [\<lparr>n_title = ''b'', n_subdirs = [], sr_matched_fields = {''title''}, sr_score = None,
             sr_title_highlights = Some ''b'', sr_content_highlights = None,
             sr_tag_matches = None\<rparr>])
   \<and> rev [\<lparr>n_title = ''a'', n_subdirs = [], sr_matched_fields = {''title''}, sr_score = None,
             sr_title_highlights = Some ''a'', sr_content_highlights = None,
             sr_tag_matches = None\<rparr>]
       \<noteq> [\<lparr>n_title = ''b'', n_subdirs = [], sr_matched_fields = {''title''}, sr_score = None,
             sr_title_highlights = Some ''b'', sr_content_highlights = None,
             sr_tag_matches = None\<rparr>]"
proof -
  have "search engine_all store_a_b [] ''*'' ''title'' ''asc'' (Some 1) =
     Inr ([\<lparr>d_filename = ''a.md'', d_last_modified = 5, d_title = ''a'', d_content = ''alpha #'',
             d_tags = {''one''}\<rparr>,
           \<lparr>d_filename = ''b.md'', d_last_modified = 6, d_title = ''b'', d_content = ''beta # #'',
             d_tags = {''one'', ''two''}\<rparr>],
          [\<lparr>n_title = ''a'', n_subdirs = [], sr_matched_fields = {''title''}, sr_score = None,
             sr_title_highlights = Some ''a'', sr_content_highlights = None,
             sr_tag_matches = None\<rparr>])"
    by code_simp
  moreover have "search engine_all store_a_b [] ''*'' ''title'' ''desc'' (Some 1) =
     Inr ([\<lparr>d_filename = ''a.md'', d_last_modified = 5, d_title = ''a'', d_content = ''alpha #'',
             d_tags = {''one''}\<rparr>,
           \<lparr>d_filename = ''b.md'', d_last_modified = 6, d_title = ''b'', d_content = ''beta # #'',
             d_tags = {''one'', ''two''}\<rparr>],
          [\<lparr>n_title = ''b'', n_subdirs = [], sr_matched_fields = {''title''}, sr_score = None,
             sr_title_highlights = Some ''b'', sr_content_highlights = None,
             sr_tag_matches = None\<rparr>])"
    by code_simp
  ultimately show ?thesis by simp
qed

text \<open>
  C7: in every result of a search the score is the raw score of the hit exactly when the
  search was ordered by relevance; when it was ordered by \<^verbatim>\<open>title\<close> or \<^verbatim>\<open>last_modified\<close> the
  score is \<^verbatim>\<open>None\<close>.
\<close>

theorem search_score_field:
  assumes "search eng st index term sort_arg order limit = Inr (index', rs)"
  shows "\<exists>ms. parse_and_match eng index'
           (if pre_process_search_term term = ''*'' then Every
            else Parsed (pre_process_search_term term)) = Inr ms
     \<and> map sr_score rs =
         map (\<lambda>h. if sort_arg = ''title'' \<or> sort_arg = ''last_modified'' then None
                  else Some (m_score (h_match h)))
           (searcher_search ms (sort_by sort_arg) (sort_direction sort_arg order) limit)"
proof -
  from assms obtain ms where
    m: "parse_and_match eng index'
           (if pre_process_search_term term = ''*'' then Every
            else Parsed (pre_process_search_term term)) = Inr ms"
    and r: "search_results eng st
           (searcher_search ms (sort_by sort_arg) (sort_direction sort_arg order) limit) = Inr rs"
    by (rule search_Inr)
  have "score_of_hit h =
      (if sort_arg = ''title'' \<or> sort_arg = ''last_modified'' then None
       else Some (m_score (h_match h)))"
    if "h \<in> set (searcher_search ms (sort_by sort_arg) (sort_direction sort_arg order) limit)" for h
    using that
    by (auto simp: searcher_search_def Let_def sort_by_def score_of_hit_def to_hit_def)
  then have "map score_of_hit
        (searcher_search ms (sort_by sort_arg) (sort_direction sort_arg order) limit)
      = map (\<lambda>h. if sort_arg = ''title'' \<or> sort_arg = ''last_modified'' then None
                  else Some (m_score (h_match h)))
          (searcher_search ms (sort_by sort_arg) (sort_direction sort_arg order) limit)"
    by (intro map_cong refl)
  with search_results_scores [OF r] m show ?thesis by auto
qed

theorem search_score_field_witness:
  "map sr_score
     [\<lparr>n_title = ''b'', n_subdirs = [], sr_matched_fields = {''title''}, sr_score = Some 8,
             sr_title_highlights = Some ''b'', sr_content_highlights = None,
             sr_tag_matches = None\<rparr>,
      \<lparr>n_title = ''a'', n_subdirs = [], sr_matched_fields = {''title''}, sr_score = Some 7,
             sr_title_highlights = Some ''a'', sr_content_highlights = None,
             sr_tag_matches = None\<rparr>]
   = [Some 8, Some 7]
   \<and> (\<exists>ms. parse_and_match engine_all
             [\<lparr>d_filename = ''a.md'', d_last_modified = 5, d_title = ''a'', d_content = ''alpha #'',
             d_tags = {''one''}\<rparr>,
           \<lparr>d_filename = ''b.md'', d_last_modified = 6, d_title = ''b'', d_content = ''beta # #'',
             d_tags = {''one'', ''two''}\<rparr>]
             (if pre_process_search_term ''*'' = ''*'' then Every
              else Parsed (pre_process_search_term ''*'')) = Inr ms
        \<and> [Some 8, Some 7] =
            map (\<lambda>h. if ''score'' = ''title'' \<or> ''score'' = ''last_modified'' then None
                     else Some (m_score (h_match h)))
              (searcher_search ms (sort_by ''score'') (sort_direction ''score'' ''desc'') None))"
proof -
  let ?index = "[\<lparr>d_filename = ''a.md'', d_last_modified = 5, d_title = ''a'', d_content = ''alpha #'',
             d_tags = {''one''}\<rparr>,
           \<lparr>d_filename = ''b.md'', d_last_modified = 6, d_title = ''b'', d_content = ''beta # #'',
             d_tags = {''one'', ''two''}\<rparr>]"
  let ?rs = "[\<lparr>n_title = ''b'', n_subdirs = [], sr_matched_fields = {''title''}, sr_score = Some 8,
             sr_title_highlights = Some ''b'', sr_content_highlights = None,
             sr_tag_matches = None\<rparr>,
      \<lparr>n_title = ''a'', n_subdirs = [], sr_matched_fields = {''title''}, sr_score = Some 7,
             sr_title_highlights = Some ''a'', sr_content_highlights = None,
             sr_tag_matches = None\<rparr>]"
  have a: "search engine_all store_a_b [] ''*'' ''score'' ''desc'' None = Inr (?index, ?rs)"
    by code_simp
  have s: "map sr_score ?rs = [Some 8, Some 7]"
    by simp
  from search_score_field [OF a] s show ?thesis by simp
qed

end
